theory Spec2Isabelle
  imports Main
begin

section \<open>Strings and buffers\<close>

text \<open>
  A JavaScript string is a sequence of UTF-16 code units; a code unit is kept as a natural
  number (every producer below yields values below 65536). A Node.js \<open>Buffer\<close>, the
  payload of a socket's \<open>data\<close> event when no encoding has been set on the socket, is a
  sequence of bytes, kept as an Isabelle \<open>char list\<close> (a \<open>char\<close> is one byte).
\<close>

type_synonym js_string = "nat list"

type_synonym Buffer = "char list"

text \<open>A string literal of the source text (ASCII only): one code unit per character.\<close>

definition js_literal :: "string \<Rightarrow> js_string" where
  "js_literal s = map of_char s"

text \<open>The line terminator \<open>'\n'\<close>, code unit 10.\<close>

definition LF :: nat where
  "LF = 0x0A"

subsection \<open>\<open>Buffer.prototype.toString()\<close>: UTF-8 decoding\<close>

text \<open>
  \<open>buffer += data\<close> with \<open>data\<close> a Buffer converts the Buffer with its \<open>toString()\<close>, which
  decodes the bytes of this one Buffer as UTF-8. The decoder never fails: following the
  Encoding Standard, each ill-formed or truncated sequence gives the replacement character
  U+FFFD, and a byte that cannot continue a sequence is decoded again as the start of the
  next one. Code points from U+10000 become a surrogate pair.
\<close>

definition in_range :: "nat \<Rightarrow> nat \<Rightarrow> char \<Rightarrow> bool" where
  "in_range lo hi c = (lo \<le> of_char c \<and> (of_char c :: nat) \<le> hi)"

definition trail :: "char \<Rightarrow> nat" where
  "trail c = of_char c - 0x80"

definition utf16 :: "nat \<Rightarrow> js_string" where
  "utf16 cp = (if cp < 0x10000 then [cp]
     else [0xD800 + (cp - 0x10000) div 0x400, 0xDC00 + (cp - 0x10000) mod 0x400])"

fun utf8_decode :: "Buffer \<Rightarrow> js_string" where
  "utf8_decode [] = []"
| "utf8_decode (b # bs) =
     (let n = (of_char b :: nat) in
      if n < 0x80 then n # utf8_decode bs
      else if 0xC2 \<le> n \<and> n \<le> 0xDF then
        (case bs of
           [] \<Rightarrow> [0xFFFD]
         | c # cs \<Rightarrow>
             if in_range 0x80 0xBF c
             then utf16 ((n - 0xC0) * 0x40 + trail c) @ utf8_decode cs
             else 0xFFFD # utf8_decode bs)
      else if 0xE0 \<le> n \<and> n \<le> 0xEF then
        (case bs of
           [] \<Rightarrow> [0xFFFD]
         | c # cs \<Rightarrow>
             if in_range (if n = 0xE0 then 0xA0 else 0x80) (if n = 0xED then 0x9F else 0xBF) c
             then (case cs of
                     [] \<Rightarrow> [0xFFFD]
                   | d # ds \<Rightarrow>
                       if in_range 0x80 0xBF d
                       then utf16 ((n - 0xE0) * 0x1000 + trail c * 0x40 + trail d)
                            @ utf8_decode ds
                       else 0xFFFD # utf8_decode cs)
             else 0xFFFD # utf8_decode bs)
      else if 0xF0 \<le> n \<and> n \<le> 0xF4 then
        (case bs of
           [] \<Rightarrow> [0xFFFD]
         | c # cs \<Rightarrow>
             if in_range (if n = 0xF0 then 0x90 else 0x80) (if n = 0xF4 then 0x8F else 0xBF) c
             then (case cs of
                     [] \<Rightarrow> [0xFFFD]
                   | d # ds \<Rightarrow>
                       if in_range 0x80 0xBF d
                       then (case ds of
                               [] \<Rightarrow> [0xFFFD]
                             | e # es \<Rightarrow>
                                 if in_range 0x80 0xBF e
                                 then utf16 ((n - 0xF0) * 0x40000 + trail c * 0x1000
                                             + trail d * 0x40 + trail e)
                                      @ utf8_decode es
                                 else 0xFFFD # utf8_decode ds)
                       else 0xFFFD # utf8_decode cs)
             else 0xFFFD # utf8_decode bs)
      else 0xFFFD # utf8_decode bs)"

text \<open>A chunk all of whose bytes are ASCII.\<close>

definition ascii :: "Buffer \<Rightarrow> bool" where
  "ascii data = list_all (\<lambda>c. (of_char c :: nat) < 0x80) data"

subsection \<open>\<open>String.prototype.indexOf\<close> with a one-character needle\<close>

text \<open>The index of the first occurrence of the code unit, or \<open>-1\<close> when there is none.\<close>

fun indexOf :: "js_string \<Rightarrow> nat \<Rightarrow> int" where
  "indexOf [] c = -1"
| "indexOf (x # xs) c =
     (if x = c then 0
      else (let i = indexOf xs c in if i = -1 then -1 else i + 1))"

text \<open>
  \<open>s.substring(a, b)\<close> and \<open>s.substring(a)\<close> for integer arguments: each index is clamped
  to the range from 0 to the length of the string, and the smaller of the two is the
  start.
\<close>

definition clamp_index :: "js_string \<Rightarrow> int \<Rightarrow> nat" where
  "clamp_index s i = nat (max 0 (min i (int (length s))))"

definition substring :: "js_string \<Rightarrow> int \<Rightarrow> int \<Rightarrow> js_string" where
  "substring s a b =
     (let lo = min (clamp_index s a) (clamp_index s b);
          hi = max (clamp_index s a) (clamp_index s b)
      in take (hi - lo) (drop lo s))"

definition substring_from :: "js_string \<Rightarrow> int \<Rightarrow> js_string" where
  "substring_from s a = drop (clamp_index s a) s"

section \<open>\<open>JSON.parse\<close>\<close>

text \<open>
  \<open>JSON.parse\<close> is a built-in of the language; the model follows the JSON grammar of
  ECMA-404 as ECMAScript applies it, so it accepts and rejects the texts that \<open>JSON.parse\<close>
  accepts and rejects. A value is \<open>null\<close>, a boolean, a number, a string, an array, or an
  object. Two things are kept more finely than the engine keeps them. A number is the
  exact decimal value \<open>m * 10 ^ e\<close> of its literal, in the normal form \<open>e \<le> 0\<close> with no trailing
  zero in \<open>m\<close> when \<open>e < 0\<close>, where the engine rounds to the nearest double: the two agree on
  the integers up to \<open>2 ^ 53\<close>, and differ beyond the precision and the range of a double
  (\<open>9007199254740993\<close> is read as \<open>9007199254740992\<close>, \<open>1e400\<close> as \<open>Infinity\<close>, \<open>1e-400\<close> as \<open>0\<close>)
  and on the sign of \<open>-0\<close>. An object keeps its properties in the order of their creation,
  where the engine lists the keys that are array indices first. The statements below
  about concrete payloads use integers below \<open>2 ^ 53\<close> and keys that are not array indices.
\<close>

datatype json =
    JNull
  | JBool bool
  | JNum int int
  | JStr js_string
  | JArr "json list"
  | JObj "(js_string \<times> json) list"

datatype token =
    TLBrace | TRBrace | TLBrack | TRBrack | TColon | TComma
  | TTrue | TFalse | TNull
  | TNum int int
  | TStr js_string

definition ch :: "char \<Rightarrow> nat" where
  "ch c = of_char c"

definition is_ws :: "nat \<Rightarrow> bool" where
  "is_ws c = (c = 0x20 \<or> c = 0x09 \<or> c = 0x0A \<or> c = 0x0D)"

definition is_digit :: "nat \<Rightarrow> bool" where
  "is_digit c = (0x30 \<le> c \<and> c \<le> 0x39)"

subsection \<open>Numbers\<close>

definition digits_val :: "js_string \<Rightarrow> int" where
  "digits_val ds = foldl (\<lambda>a d. 10 * a + int (d - 0x30)) 0 ds"

fun strip_zeros :: "int \<Rightarrow> nat \<Rightarrow> int \<times> int" where
  "strip_zeros m 0 = (m, 0)"
| "strip_zeros m (Suc k) =
     (if m mod 10 = 0 then strip_zeros (m div 10) k else (m, - int (Suc k)))"

definition mk_number :: "bool \<Rightarrow> js_string \<Rightarrow> int \<Rightarrow> int \<times> int" where
  "mk_number neg ds e =
     (let m = (if neg then - digits_val ds else digits_val ds) in
      if 0 \<le> e then (m * 10 ^ nat e, 0) else strip_zeros m (nat (- e)))"

text \<open>The optional fraction: \<open>.\<close> and at least one digit.\<close>

definition lex_frac :: "js_string \<Rightarrow> (js_string \<times> js_string) option" where
  "lex_frac cs =
     (case cs of
        [] \<Rightarrow> Some ([], [])
      | c # r \<Rightarrow>
          if c = ch CHR ''.''
          then (if takeWhile is_digit r = [] then None
                else Some (takeWhile is_digit r, dropWhile is_digit r))
          else Some ([], cs))"

text \<open>The optional exponent: \<open>e\<close> or \<open>E\<close>, an optional sign, and at least one digit.\<close>

definition lex_sign :: "js_string \<Rightarrow> int \<times> js_string" where
  "lex_sign cs =
     (case cs of
        [] \<Rightarrow> (1, [])
      | s # r \<Rightarrow>
          if s = ch CHR ''+'' then (1, r)
          else if s = ch CHR ''-'' then (- 1, r)
          else (1, cs))"

definition lex_exp :: "js_string \<Rightarrow> (int \<times> js_string) option" where
  "lex_exp cs =
     (case cs of
        [] \<Rightarrow> Some (0, [])
      | c # r \<Rightarrow>
          if c = ch CHR ''e'' \<or> c = ch CHR ''E''
          then (case lex_sign r of (sg, r1) \<Rightarrow>
                  if takeWhile is_digit r1 = [] then None
                  else Some (sg * digits_val (takeWhile is_digit r1), dropWhile is_digit r1))
          else Some (0, cs))"

text \<open>
  A number literal: an optional \<open>-\<close>, an integer part that is \<open>0\<close> or starts with a
  nonzero digit, then the optional fraction and exponent.
\<close>

definition lex_number :: "js_string \<Rightarrow> (token \<times> js_string) option" where
  "lex_number cs =
     (let neg = (cs \<noteq> [] \<and> hd cs = ch CHR ''-'');
          cs1 = (if neg then tl cs else cs);
          ip = takeWhile is_digit cs1
      in if ip = [] \<or> (hd ip = ch CHR ''0'' \<and> 1 < length ip) then None
         else (case lex_frac (dropWhile is_digit cs1) of
                 None \<Rightarrow> None
               | Some (fp, cs3) \<Rightarrow>
                   (case lex_exp cs3 of
                      None \<Rightarrow> None
                    | Some (ex, cs4) \<Rightarrow>
                        (case mk_number neg (ip @ fp) (ex - int (length fp)) of
                           (m, e) \<Rightarrow> Some (TNum m e, cs4)))))"

subsection \<open>Strings\<close>

definition hex_val :: "nat \<Rightarrow> nat option" where
  "hex_val c =
     (if 0x30 \<le> c \<and> c \<le> 0x39 then Some (c - 0x30)
      else if 0x41 \<le> c \<and> c \<le> 0x46 then Some (c - 0x37)
      else if 0x61 \<le> c \<and> c \<le> 0x66 then Some (c - 0x57)
      else None)"

definition hex4 :: "js_string \<Rightarrow> nat option" where
  "hex4 hs =
     (case map hex_val hs of
        [Some a, Some b, Some c, Some d] \<Rightarrow> Some (((a * 16 + b) * 16 + c) * 16 + d)
      | _ \<Rightarrow> None)"

definition unescape :: "nat \<Rightarrow> nat option" where
  "unescape e =
     (if e = 0x22 then Some 0x22
      else if e = 0x5C then Some 0x5C
      else if e = ch CHR ''/'' then Some (ch CHR ''/'')
      else if e = ch CHR ''b'' then Some 0x08
      else if e = ch CHR ''f'' then Some 0x0C
      else if e = ch CHR ''n'' then Some 0x0A
      else if e = ch CHR ''r'' then Some 0x0D
      else if e = ch CHR ''t'' then Some 0x09
      else None)"

text \<open>
  The rest of a string literal after its opening quote (code unit \<open>0x22\<close>), up to the
  closing quote; \<open>0x5C\<close> is the backslash. Control characters below \<open>0x20\<close> are not allowed
  unescaped.
\<close>

fun lex_string :: "js_string \<Rightarrow> (js_string \<times> js_string) option" where
  "lex_string [] = None"
| "lex_string (c # cs) =
     (if c = 0x22 then Some ([], cs)
      else if c = 0x5C then
        (case cs of
           [] \<Rightarrow> None
         | e # r \<Rightarrow>
             if e = ch CHR ''u'' then
               (case hex4 (take 4 r) of
                  None \<Rightarrow> None
                | Some u \<Rightarrow>
                    (case lex_string (drop 4 r) of
                       None \<Rightarrow> None
                     | Some (s, r') \<Rightarrow> Some (u # s, r')))
             else
               (case unescape e of
                  None \<Rightarrow> None
                | Some u \<Rightarrow>
                    (case lex_string r of
                       None \<Rightarrow> None
                     | Some (s, r') \<Rightarrow> Some (u # s, r'))))
      else if c < 0x20 then None
      else (case lex_string cs of
              None \<Rightarrow> None
            | Some (s, r') \<Rightarrow> Some (c # s, r')))"

subsection \<open>Tokens\<close>

definition punct :: "nat \<Rightarrow> token option" where
  "punct c =
     (if c = ch CHR ''{'' then Some TLBrace
      else if c = ch CHR ''}'' then Some TRBrace
      else if c = ch CHR ''['' then Some TLBrack
      else if c = ch CHR '']'' then Some TRBrack
      else if c = ch CHR '':'' then Some TColon
      else if c = ch CHR '','' then Some TComma
      else None)"

definition cons_tok :: "token \<Rightarrow> token list option \<Rightarrow> token list option" where
  "cons_tok t r = (case r of None \<Rightarrow> None | Some ts \<Rightarrow> Some (t # ts))"

lemma lex_string_shorter: "lex_string cs = Some (s, r) \<Longrightarrow> length r < Suc (length cs)"
proof (induction cs arbitrary: s r rule: lex_string.induct)
  case 1
  then show ?case by simp
next
  case (2 c cs)
  show ?case
  proof (cases "c = 0x22")
    case True
    with "2.prems" show ?thesis by simp
  next
    case q: False
    show ?thesis
    proof (cases "c = 0x5C")
      case True
      with q "2.prems" "2.IH"(1,2) show ?thesis
        by (fastforce split: list.splits option.splits if_splits)
    next
      case False
      with q "2.prems" "2.IH"(3) show ?thesis
        by (fastforce split: option.splits if_splits)
    qed
  qed
qed

lemma lex_frac_shorter: "lex_frac cs = Some (fp, r) \<Longrightarrow> length r \<le> length cs"
  by (auto simp: lex_frac_def le_SucI length_dropWhile_le split: list.splits if_splits)

lemma lex_sign_shorter: "lex_sign cs = (sg, r) \<Longrightarrow> length r \<le> length cs"
  by (auto simp: lex_sign_def split: list.splits if_splits)

lemma lex_exp_shorter: "lex_exp cs = Some (ex, r) \<Longrightarrow> length r \<le> length cs"
proof (cases cs)
  case Nil
  assume "lex_exp cs = Some (ex, r)"
  with Nil show ?thesis by (simp add: lex_exp_def)
next
  case (Cons c cs')
  assume a: "lex_exp cs = Some (ex, r)"
  show ?thesis
  proof (cases "c = ch CHR ''e'' \<or> c = ch CHR ''E''")
    case False
    with a Cons show ?thesis by (auto simp: lex_exp_def)
  next
    case True
    obtain sg r1 where s: "lex_sign cs' = (sg, r1)" by (cases "lex_sign cs'")
    from a Cons True s have "r = dropWhile is_digit r1"
      by (auto simp: lex_exp_def split: if_splits)
    moreover have "length (dropWhile is_digit r1) \<le> length r1" by (rule length_dropWhile_le)
    moreover from s have "length r1 \<le> length cs'" by (rule lex_sign_shorter)
    ultimately show ?thesis using Cons by simp
  qed
qed

lemma lex_number_shorter:
  assumes "lex_number (c # cs) = Some (t, r)"
  shows "length r < Suc (length cs)"
proof -
  let ?neg = "c = ch CHR ''-''"
  let ?cs1 = "if ?neg then cs else c # cs"
  let ?ip = "takeWhile is_digit ?cs1"
  from assms have ip: "?ip \<noteq> []"
    by (auto simp: lex_number_def Let_def split: if_splits)
  from assms obtain fp cs3 ex where
    f: "lex_frac (dropWhile is_digit ?cs1) = Some (fp, cs3)" and e: "lex_exp cs3 = Some (ex, r)"
    by (auto simp: lex_number_def Let_def split: if_splits option.splits prod.splits)
  have "length ?ip + length (dropWhile is_digit ?cs1) = length ?cs1"
    by (metis length_append takeWhile_dropWhile_id)
  with ip have "length (dropWhile is_digit ?cs1) < length ?cs1"
    by (cases ?ip) auto
  moreover from f have "length cs3 \<le> length (dropWhile is_digit ?cs1)" by (rule lex_frac_shorter)
  moreover from e have "length r \<le> length cs3" by (rule lex_exp_shorter)
  ultimately show ?thesis by (auto split: if_splits)
qed

text \<open>
  The token sequence of a text, or \<open>None\<close> when some character starts no token. White
  space (space, tab, line feed, carriage return) separates tokens.
\<close>

function lex :: "js_string \<Rightarrow> token list option" where
  "lex [] = Some []"
| "lex (c # cs) =
     (if is_ws c then lex cs
      else if punct c \<noteq> None then cons_tok (the (punct c)) (lex cs)
      else if c = 0x22 then
        (case lex_string cs of
           None \<Rightarrow> None
         | Some (s, r) \<Rightarrow> cons_tok (TStr s) (lex r))
      else if c = ch CHR ''-'' \<or> is_digit c then
        (case lex_number (c # cs) of
           None \<Rightarrow> None
         | Some (t, r) \<Rightarrow> cons_tok t (lex r))
      else if take 4 (c # cs) = js_literal ''true'' then cons_tok TTrue (lex (drop 3 cs))
      else if take 5 (c # cs) = js_literal ''false'' then cons_tok TFalse (lex (drop 4 cs))
      else if take 4 (c # cs) = js_literal ''null'' then cons_tok TNull (lex (drop 3 cs))
      else None)"
  by pat_completeness auto
termination
  by (relation "measure length")
     (auto dest: lex_string_shorter lex_number_shorter)

subsection \<open>Values\<close>

text \<open>
  Creating a property on the object being built: a key that is already there keeps its
  place and takes the new value (of duplicate keys the last one wins), a new key goes to
  the end.
\<close>

fun put_property :: "js_string \<Rightarrow> json \<Rightarrow> (js_string \<times> json) list \<Rightarrow> (js_string \<times> json) list" where
  "put_property k v [] = [(k, v)]"
| "put_property k v (p # ps) = (if fst p = k then (k, v) # ps else p # put_property k v ps)"

text \<open>
  A value from the front of the token sequence, with the tokens left over. After \<open>[\<close>
  comes \<open>]\<close> or the elements, separated by commas; after \<open>{\<close> comes \<open>}\<close> or the members
  \<open>"key": value\<close>, separated by commas.
\<close>

function parse_value :: "token list \<Rightarrow> (json \<times> token list) option"
  and parse_elements :: "json list \<Rightarrow> token list \<Rightarrow> (json \<times> token list) option"
  and parse_members :: "(js_string \<times> json) list \<Rightarrow> token list \<Rightarrow> (json \<times> token list) option"
where
  "parse_value [] = None"
| "parse_value (t # ts) =
     (case t of
        TNull \<Rightarrow> Some (JNull, ts)
      | TTrue \<Rightarrow> Some (JBool True, ts)
      | TFalse \<Rightarrow> Some (JBool False, ts)
      | TNum m e \<Rightarrow> Some (JNum m e, ts)
      | TStr s \<Rightarrow> Some (JStr s, ts)
      | TLBrack \<Rightarrow>
          if ts \<noteq> [] \<and> hd ts = TRBrack then Some (JArr [], tl ts)
          else parse_elements [] ts
      | TLBrace \<Rightarrow>
          if ts \<noteq> [] \<and> hd ts = TRBrace then Some (JObj [], tl ts)
          else parse_members [] ts
      | _ \<Rightarrow> None)"
| "parse_elements acc ts =
     (case parse_value ts of
        None \<Rightarrow> None
      | Some (v, r) \<Rightarrow>
          if r \<noteq> [] \<and> hd r = TComma then parse_elements (acc @ [v]) (tl r)
          else if r \<noteq> [] \<and> hd r = TRBrack then Some (JArr (acc @ [v]), tl r)
          else None)"
| "parse_members acc ts =
     (case ts of
        TStr k # TColon # r \<Rightarrow>
          (case parse_value r of
             None \<Rightarrow> None
           | Some (v, r') \<Rightarrow>
               if r' \<noteq> [] \<and> hd r' = TComma then parse_members (put_property k v acc) (tl r')
               else if r' \<noteq> [] \<and> hd r' = TRBrace then Some (JObj (put_property k v acc), tl r')
               else None)
      | _ \<Rightarrow> None)"
  by pat_completeness auto

lemma parse_shorter:
  "parse_value_parse_elements_parse_members_dom (Inl ts) \<Longrightarrow>
     \<forall>v r. parse_value ts = Some (v, r) \<longrightarrow> length r < length ts"
  "parse_value_parse_elements_parse_members_dom (Inr (Inl (acc, ts))) \<Longrightarrow>
     \<forall>v r. parse_elements acc ts = Some (v, r) \<longrightarrow> length r < length ts"
  "parse_value_parse_elements_parse_members_dom (Inr (Inr (acc', ts))) \<Longrightarrow>
     \<forall>v r. parse_members acc' ts = Some (v, r) \<longrightarrow> length r < length ts"
proof (induction ts and acc ts and acc' ts
    rule: parse_value_parse_elements_parse_members.pinduct)
  case 1
  then show ?case by (simp add: parse_value.psimps)
next
  case (2 t ts)
  then show ?case
    by (cases t; cases ts) (auto simp: parse_value.psimps split: if_splits)
next
  case (3 acc ts)
  show ?case
  proof (intro allI impI)
    fix v r
    assume a: "parse_elements acc ts = Some (v, r)"
    with "3.hyps" obtain x y where p: "parse_value ts = Some (x, y)"
      by (auto simp: parse_elements.psimps split: option.splits)
    with "3.IH"(1) have y: "length y < length ts" by blast
    show "length r < length ts"
    proof (cases "y \<noteq> [] \<and> hd y = TComma")
      case True
      with a p "3.hyps" have "parse_elements (acc @ [x]) (tl y) = Some (v, r)"
        by (simp add: parse_elements.psimps)
      with "3.IH"(2)[OF p refl True] have "length r < length (tl y)" by blast
      with y show ?thesis by simp
    next
      case False
      with a p "3.hyps" have "r = tl y"
        by (auto simp: parse_elements.psimps split: if_splits)
      with y show ?thesis by simp
    qed
  qed
next
  case (4 acc ts)
  show ?case
  proof (intro allI impI)
    fix v r
    assume a: "parse_members acc ts = Some (v, r)"
    with "4.hyps" obtain k ts' where ts: "ts = TStr k # TColon # ts'"
      by (auto simp: parse_members.psimps split: list.splits token.splits)
    with a "4.hyps" obtain x y where p: "parse_value ts' = Some (x, y)"
      by (auto simp: parse_members.psimps split: option.splits)
    from "4.IH"(1)[OF ts refl refl refl] p have y: "length y < length ts'" by blast
    show "length r < length ts"
    proof (cases "y \<noteq> [] \<and> hd y = TComma")
      case True
      with a p ts "4.hyps" have "parse_members (put_property k x acc) (tl y) = Some (v, r)"
        by (simp add: parse_members.psimps)
      with "4.IH"(2)[OF ts refl refl refl p refl True] have "length r < length (tl y)" by blast
      with y ts show ?thesis by simp
    next
      case False
      with a p ts "4.hyps" have "r = tl y"
        by (auto simp: parse_members.psimps split: if_splits)
      with y ts show ?thesis by simp
    qed
  qed
qed

termination parse_value
proof (relation "measure (\<lambda>x. case x of
           Inl ts \<Rightarrow> 2 * length ts + 1
         | Inr (Inl (acc, ts)) \<Rightarrow> 2 * length ts + 2
         | Inr (Inr (acc, ts)) \<Rightarrow> 2 * length ts)", goal_cases)
  case 1
  then show ?case by simp
next
  case (2 t ts)
  then show ?case by simp
next
  case (3 t ts)
  then show ?case by simp
next
  case (4 acc ts)
  then show ?case by simp
next
  case (5 acc ts x2 x y)
  with parse_shorter(1)[OF 5(4)] have "length y < length ts" by auto
  with 5 show ?case by (cases y) auto
next
  case (6 acc ts x21 x22 x11 x21a x22a)
  then show ?case by simp
next
  case (7 acc ts x21 x22 x11 x21a x22a x2 x y)
  with parse_shorter(1)[OF 7(8)] have "length y < length x22a" by auto
  with 7 show ?case by (cases y) auto
qed

text \<open>
  \<open>JSON.parse(text)\<close>: the value when the whole text is one JSON value; \<open>None\<close> is the
  \<open>SyntaxError\<close> that \<open>JSON.parse\<close> throws on any other text.
\<close>

definition JSON_parse :: "js_string \<Rightarrow> json option" where
  "JSON_parse text =
     (case lex text of
        None \<Rightarrow> None
      | Some ts \<Rightarrow>
          (case parse_value ts of
             Some (v, []) \<Rightarrow> Some v
           | _ \<Rightarrow> None))"

section \<open>The LDJ client: \<open>lib/ldj-client.js\<close>\<close>

text \<open>
  The module as listed in \<open>networking/version8-test4\<close>, lines 87 to 110; line numbers below
  are those of that file.

  What a JavaScript expression can evaluate to here: a JSON value or \<open>undefined\<close>; and the
  exceptions of the program: the \<open>SyntaxError\<close> of \<open>JSON.parse\<close>, a \<open>TypeError\<close> of the
  language, and the \<open>Error\<close> that the client's handler throws for a message type it does
  not know, kept with the value of \<open>message.type\<close>.
\<close>

datatype js_value = Undefined | Val json

datatype js_error =
    SyntaxError
  | TypeError
  | Unrecognized_message_type js_value

text \<open>
  A listener for the \<open>message\<close> event: it returns (\<open>None\<close>) or throws. \<open>this.emit\<close> calls the
  listener synchronously, so what the listener throws comes out of \<open>emit\<close>, inside the
  loop of the \<open>data\<close> handler.
\<close>

type_synonym listener = "json \<Rightarrow> js_error option"

definition no_listener :: listener where
  "no_listener = (\<lambda>message. None)"

text \<open>
  The state one run of the \<open>data\<close> handler leaves: the values passed to
  \<open>this.emit('message', ...)\<close> in order, the variable \<open>buffer\<close>, and the exception that ended
  the run, if any.
\<close>

record outcome =
  emitted :: "json list"
  buffer :: js_string
  thrown :: "js_error option"

lemma indexOf_range: "indexOf s c = -1 \<or> (0 \<le> indexOf s c \<and> indexOf s c < int (length s))"
  by (induction s) (auto simp: Let_def)

text \<open>
  The \<open>while (boundary !== -1)\<close> loop, lines 95 to 101, from the point where \<open>boundary\<close> has
  been computed from the current \<open>buffer\<close>: \<open>buffer\<close> is cut before \<open>JSON.parse(input)\<close> runs,
  and both \<open>JSON.parse\<close> and \<open>emit\<close> can throw out of the loop.
\<close>

function drain :: "listener \<Rightarrow> js_string \<Rightarrow> outcome" where
  "drain on_message buf =
     (let boundary = indexOf buf LF in
      if boundary \<noteq> -1 then
        (let input = substring buf 0 boundary;
             buf' = substring_from buf (boundary + 1)
         in case JSON_parse input of
              None \<Rightarrow> \<lparr>emitted = [], buffer = buf', thrown = Some SyntaxError\<rparr>
            | Some message \<Rightarrow>
                (case on_message message of
                   Some e \<Rightarrow> \<lparr>emitted = [message], buffer = buf', thrown = Some e\<rparr>
                 | None \<Rightarrow>
                     (let r = drain on_message buf'
                      in r\<lparr>emitted := message # emitted r\<rparr>)))
      else \<lparr>emitted = [], buffer = buf, thrown = None\<rparr>)"
  by pat_completeness auto
termination
proof (relation "measure (\<lambda>(on_message, buf). length buf)", goal_cases)
  case 1
  then show ?case by simp
next
  case (2 on_message buf boundary input buf' message)
  with indexOf_range [of buf LF] show ?case
    by (auto simp: substring_from_def clamp_index_def)
qed

declare drain.simps [simp del]

text \<open>
  The \<open>data\<close> handler, lines 93 to 102: \<open>buffer += data\<close> appends the text of the chunk, then
  the loop runs. \<open>buf\<close> is the value of \<open>buffer\<close> when the event arrives.
\<close>

definition on_data :: "listener \<Rightarrow> js_string \<Rightarrow> Buffer \<Rightarrow> outcome" where
  "on_data on_message buf data = drain on_message (buf @ utf8_decode data)"

text \<open>
  The stream delivers its chunks as successive \<open>data\<close> events. The client installs no
  handler for uncaught exceptions, so an exception out of the \<open>data\<close> handler ends the
  process: the chunks after it are never delivered.
\<close>

fun data_events :: "listener \<Rightarrow> js_string \<Rightarrow> Buffer list \<Rightarrow> outcome" where
  "data_events on_message buf [] = \<lparr>emitted = [], buffer = buf, thrown = None\<rparr>"
| "data_events on_message buf (data # chunks) =
     (let r = on_data on_message buf data in
      if thrown r \<noteq> None then r
      else (let r' = data_events on_message (buffer r) chunks
            in r'\<lparr>emitted := emitted r @ emitted r'\<rparr>))"

text \<open>\<open>new LDJClient(stream)\<close>: \<open>buffer\<close> starts as the empty string.\<close>

definition LDJClient :: "listener \<Rightarrow> Buffer list \<Rightarrow> outcome" where
  "LDJClient on_message chunks = data_events on_message [] chunks"

section \<open>The client program: \<open>net-watcher-ldj-client.js\<close>\<close>

text \<open>
  The program as listed in \<open>networking/version8-test4\<close>, lines 134 to 146: it connects a
  socket, sets no encoding on it, and hands it to the LDJ client.

  Reading the property \<open>key\<close> of a message, for the keys the handler reads (\<open>type\<close>, \<open>file\<close>,
  \<open>timestamp\<close>, none of which is a property of a prototype): on \<open>null\<close> it is a \<open>TypeError\<close>,
  on an object the own property or \<open>undefined\<close>, on any other value \<open>undefined\<close>.
\<close>

fun get_property :: "json \<Rightarrow> js_string \<Rightarrow> js_error + js_value" where
  "get_property JNull key = Inl TypeError"
| "get_property (JObj ps) key =
     Inr (case map_of ps key of None \<Rightarrow> Undefined | Some v \<Rightarrow> Val v)"
| "get_property message key = Inr Undefined"

text \<open>
  Whether converting a value to a primitive throws, as a template literal \<open>${...}\<close> and
  \<open>new Date(...)\<close> both do with their argument. An object whose own property \<open>toString\<close>
  hides the inherited method cannot be converted (no JSON value is callable); an array is
  joined, which converts its elements other than \<open>null\<close>.
\<close>

fun ToPrimitive_throws :: "json \<Rightarrow> bool" where
  "ToPrimitive_throws (JObj ps) = (js_literal ''toString'' \<in> set (map fst ps))"
| "ToPrimitive_throws (JArr vs) = list_ex ToPrimitive_throws vs"
| "ToPrimitive_throws v = False"

fun conversion_throws :: "js_value \<Rightarrow> bool" where
  "conversion_throws Undefined = False"
| "conversion_throws (Val v) = ToPrimitive_throws v"

text \<open>
  The handler of lines 138 to 146. A line written by \<open>console.log\<close> is kept with the value
  it prints, before formatting.
\<close>

datatype log_line = Now_watching js_value | File_changed js_value

definition message_handler :: "json \<Rightarrow> js_error + log_line" where
  "message_handler message =
     (case get_property message (js_literal ''type'') of
        Inl e \<Rightarrow> Inl e
      | Inr type \<Rightarrow>
          if type = Val (JStr (js_literal ''watching'')) then
            (case get_property message (js_literal ''file'') of
               Inl e \<Rightarrow> Inl e
             | Inr file \<Rightarrow>
                 if conversion_throws file then Inl TypeError else Inr (Now_watching file))
          else if type = Val (JStr (js_literal ''changed'')) then
            (case get_property message (js_literal ''timestamp'') of
               Inl e \<Rightarrow> Inl e
             | Inr timestamp \<Rightarrow>
                 if conversion_throws timestamp then Inl TypeError
                 else Inr (File_changed timestamp))
          else if conversion_throws type then Inl TypeError
          else Inl (Unrecognized_message_type type))"

definition message_listener :: listener where
  "message_listener message =
     (case message_handler message of Inl e \<Rightarrow> Some e | Inr line \<Rightarrow> None)"

section \<open>The test service: \<open>net-watcher-json-test-service.js\<close>\<close>

text \<open>
  One connection of the service of lines 6 to 23. On connection it writes the first chunk
  and sets a timer; when the timer fires it writes the second chunk and ends the
  connection; on the connection's \<open>end\<close> event it clears the timer. \<open>connection.write\<close> sends
  the UTF-8 bytes of its string, here ASCII.
\<close>

datatype timer_state = Pending | Fired | Cleared

record test_session =
  timer :: timer_state
  sent :: "Buffer list"
  ended :: bool
  log :: "string list"

definition first_write :: Buffer where
  \<open>first_write = ''{"type":"changed","file":"targ''\<close>

definition second_write :: Buffer where
  \<open>second_write = ''et.txt","timestamp":"1358175758495}"'' @ ''\<newline>''\<close>

definition test_connection :: test_session where
  "test_connection =
     \<lparr>timer = Pending, sent = [first_write], ended = False, log = [''Subscriber connected'']\<rparr>"

text \<open>The callback of \<open>setTimeout\<close>, lines 13 to 16.\<close>

definition timeout_callback :: "test_session \<Rightarrow> test_session" where
  "timeout_callback s = s\<lparr>sent := sent s @ [second_write], ended := True\<rparr>"

text \<open>
  The \<open>end\<close> handler, lines 19 to 22: \<open>clearTimeout\<close> cancels a pending timer and does nothing
  to one that has fired.
\<close>

definition clearTimeout :: "timer_state \<Rightarrow> timer_state" where
  "clearTimeout t = (if t = Pending then Cleared else t)"

definition test_on_end :: "test_session \<Rightarrow> test_session" where
  "test_on_end s = s\<lparr>timer := clearTimeout (timer s), log := log s @ [''Subscriber disconnected'']\<rparr>"

text \<open>
  What the event loop delivers to the connection: the timeout, which runs the callback
  only while the timer is pending, and the \<open>end\<close> event of the socket.
\<close>

datatype test_event = Timeout | End

fun test_step :: "test_session \<Rightarrow> test_event \<Rightarrow> test_session" where
  "test_step s Timeout =
     (if timer s = Pending then timeout_callback (s\<lparr>timer := Fired\<rparr>) else s)"
| "test_step s End = test_on_end s"

definition test_run :: "test_event list \<Rightarrow> test_session" where
  "test_run evs = foldl test_step test_connection evs"

text \<open>
  The replacement of the service, lines 30 to 56, differs in its two chunks (and in its
  port and delay).
\<close>

definition firstChunk :: Buffer where
  \<open>firstChunk = ''{"type":"changed","timesta''\<close>

definition secondChunk :: Buffer where
  \<open>secondChunk = ''mp":1450694370094}\<newline>''\<close>

section \<open>The watcher service\<close>

text \<open>
  The service of \<open>unnamed/part_000\<close>, lines 9 to 37.
  One connection of the service that watches \<open>filename\<close>: on connection it writes the
  \<open>watching\<close> message and starts a watcher; the watcher's callback writes a \<open>changed\<close>
  message with the current time; on the connection's \<open>close\<close> event the watcher is closed.
  Each element of \<open>written\<close> is the value given to \<open>JSON.stringify\<close>, written as one line.
  The callback's \<open>require('dateformat')\<close> is taken to resolve; its result is not used.
\<close>

record watch_session =
  watcher_open :: bool
  written :: "json list"
  console :: "string list"

definition watch_connection :: "js_string \<Rightarrow> watch_session" where
  "watch_connection filename =
     \<lparr>watcher_open = True,
      written = [JObj [(js_literal ''type'', JStr (js_literal ''watching'')),
                       (js_literal ''file'', JStr filename)]],
      console = [''Subscriber connected.'']\<rparr>"

definition watch_callback :: "js_string \<Rightarrow> int \<Rightarrow> watch_session \<Rightarrow> watch_session" where
  "watch_callback filename now s =
     s\<lparr>written := written s @
          [JObj [(js_literal ''type'', JStr (js_literal ''changed'')),
                 (js_literal ''file'', JStr filename),
                 (js_literal ''timestamp'', JNum now 0)]]\<rparr>"

definition watch_on_close :: "watch_session \<Rightarrow> watch_session" where
  "watch_on_close s =
     s\<lparr>console := console s @ [''Subscriber disconnected.''], watcher_open := False\<rparr>"

text \<open>
  What the event loop delivers: a change of the file at time \<open>now\<close>, which reaches the
  callback only while the watcher is open, and the \<open>close\<close> event of the socket.
\<close>

datatype watch_event = Change int | Close

fun watch_step :: "js_string \<Rightarrow> watch_session \<Rightarrow> watch_event \<Rightarrow> watch_session" where
  "watch_step filename s (Change now) =
     (if watcher_open s then watch_callback filename now s else s)"
| "watch_step filename s Close = watch_on_close s"

definition watch_run :: "js_string \<Rightarrow> watch_event list \<Rightarrow> watch_session" where
  "watch_run filename evs = foldl (watch_step filename) (watch_connection filename) evs"

section \<open>Properties of the decoder\<close>

subsection \<open>The loop, frame by frame\<close>

lemma indexOf_none: "(indexOf s c = -1) = (c \<notin> set s)"
proof (induction s)
  case Nil
  then show ?case by simp
next
  case (Cons x s)
  from indexOf_range [of s c] have "indexOf s c + 1 \<noteq> -1" by auto
  with Cons show ?case by (auto simp: Let_def)
qed

lemma indexOf_first: "c \<notin> set p \<Longrightarrow> indexOf (p @ c # r) c = int (length p)"
proof (induction p)
  case Nil
  then show ?case by simp
next
  case (Cons x p)
  then show ?case by (auto simp: Let_def)
qed

lemma drain_no_terminator:
  "LF \<notin> set buf \<Longrightarrow> drain on_message buf = \<lparr>emitted = [], buffer = buf, thrown = None\<rparr>"
  by (subst drain.simps) (simp add: indexOf_none)

lemma drain_frame:
  assumes "LF \<notin> set p"
  shows "drain on_message (p @ LF # rest) =
     (case JSON_parse p of
        None \<Rightarrow> \<lparr>emitted = [], buffer = rest, thrown = Some SyntaxError\<rparr>
      | Some message \<Rightarrow>
          (case on_message message of
             Some e \<Rightarrow> \<lparr>emitted = [message], buffer = rest, thrown = Some e\<rparr>
           | None \<Rightarrow> (drain on_message rest)\<lparr>emitted := message # emitted (drain on_message rest)\<rparr>))"
proof -
  from assms have i: "indexOf (p @ LF # rest) LF = int (length p)" by (rule indexOf_first)
  show ?thesis
    by (subst drain.simps)
       (simp add: i substring_def substring_from_def clamp_index_def Let_def nat_add_distrib
          split: option.splits)
qed

lemma split_at_terminator:
  assumes "LF \<in> set buf"
  obtains p rest where "buf = p @ LF # rest" and "LF \<notin> set p"
  using assms by (meson split_list_first)

lemma drain_buffer_no_terminator:
  "thrown (drain on_message buf) = None \<Longrightarrow> LF \<notin> set (buffer (drain on_message buf))"
proof (induction buf rule: length_induct)
  case (1 buf)
  show ?case
  proof (cases "LF \<in> set buf")
    case False
    then show ?thesis by (simp add: drain_no_terminator)
  next
    case True
    then obtain p rest where b: "buf = p @ LF # rest" and p: "LF \<notin> set p"
      by (rule split_at_terminator)
    from "1.prems" have t: "thrown (drain on_message rest) = None"
      unfolding b drain_frame [OF p] by (auto split: option.splits)
    from b have "length rest < length buf" by simp
    with "1.IH" t have "LF \<notin> set (buffer (drain on_message rest))" by blast
    with "1.prems" show ?thesis
      unfolding b drain_frame [OF p] by (auto split: option.splits)
  qed
qed

lemma drain_append:
  "drain on_message (a @ b) =
     (if thrown (drain on_message a) \<noteq> None
      then (drain on_message a)\<lparr>buffer := buffer (drain on_message a) @ b\<rparr>
      else (drain on_message (buffer (drain on_message a) @ b))
             \<lparr>emitted := emitted (drain on_message a)
                  @ emitted (drain on_message (buffer (drain on_message a) @ b))\<rparr>)"
proof (induction a rule: length_induct)
  case (1 a)
  show ?case
  proof (cases "LF \<in> set a")
    case False
    then show ?thesis by (simp add: drain_no_terminator)
  next
    case True
    then obtain p rest where a: "a = p @ LF # rest" and p: "LF \<notin> set p"
      by (rule split_at_terminator)
    from a have "length rest < length a" by simp
    with "1.IH" have ih: "drain on_message (rest @ b) =
     (if thrown (drain on_message rest) \<noteq> None
      then (drain on_message rest)\<lparr>buffer := buffer (drain on_message rest) @ b\<rparr>
      else (drain on_message (buffer (drain on_message rest) @ b))
             \<lparr>emitted := emitted (drain on_message rest)
                  @ emitted (drain on_message (buffer (drain on_message rest) @ b))\<rparr>)"
      by blast
    have ab: "a @ b = p @ LF # (rest @ b)" by (simp add: a)
    show ?thesis
      unfolding ab
      unfolding a
      unfolding drain_frame [OF p]
      by (simp add: ih split: option.splits)
  qed
qed

lemma drain_after_delivered:
  assumes "drain on_message good = \<lparr>emitted = ms, buffer = [], thrown = None\<rparr>"
  shows "drain on_message (good @ b) =
           (drain on_message b)\<lparr>emitted := ms @ emitted (drain on_message b)\<rparr>"
  using drain_append [of on_message good b] assms by simp

subsection \<open>Chunks and text\<close>

lemma utf8_decode_ascii_append:
  "ascii a \<Longrightarrow> utf8_decode (a @ b) = map of_char a @ utf8_decode b"
  by (induction a) (auto simp: ascii_def)

lemma utf8_decode_ascii: "ascii a \<Longrightarrow> utf8_decode a = map of_char a"
  using utf8_decode_ascii_append [of a "[]"] by simp

lemma utf8_decode_concat_ascii:
  "list_all ascii chunks \<Longrightarrow> utf8_decode (concat chunks) = concat (map utf8_decode chunks)"
proof (induction chunks)
  case Nil
  then show ?case by simp
next
  case (Cons c cs)
  then show ?case by (simp add: utf8_decode_ascii_append utf8_decode_ascii)
qed

lemma data_events_as_one_text:
  "LF \<notin> set buf \<Longrightarrow>
   emitted (data_events on_message buf chunks)
     = emitted (drain on_message (buf @ concat (map utf8_decode chunks)))
   \<and> thrown (data_events on_message buf chunks)
     = thrown (drain on_message (buf @ concat (map utf8_decode chunks)))
   \<and> (thrown (data_events on_message buf chunks) = None \<longrightarrow>
        buffer (data_events on_message buf chunks)
          = buffer (drain on_message (buf @ concat (map utf8_decode chunks))))"
proof (induction chunks arbitrary: buf)
  case Nil
  then show ?case by (simp add: drain_no_terminator)
next
  case (Cons c cs)
  let ?r = "drain on_message (buf @ utf8_decode c)"
  have app: "drain on_message (buf @ concat (map utf8_decode (c # cs))) =
     (if thrown ?r \<noteq> None
      then ?r\<lparr>buffer := buffer ?r @ concat (map utf8_decode cs)\<rparr>
      else (drain on_message (buffer ?r @ concat (map utf8_decode cs)))
             \<lparr>emitted := emitted ?r
                  @ emitted (drain on_message (buffer ?r @ concat (map utf8_decode cs)))\<rparr>)"
    using drain_append [of on_message "buf @ utf8_decode c" "concat (map utf8_decode cs)"]
    by simp
  show ?case
  proof (cases "thrown ?r = None")
    case False
    then show ?thesis
      unfolding app by (auto simp: on_data_def Let_def)
  next
    case True
    then have "LF \<notin> set (buffer ?r)" by (rule drain_buffer_no_terminator)
    from Cons.IH [OF this] True show ?thesis
      unfolding app by (simp add: on_data_def Let_def)
  qed
qed

lemma utf16_no_terminator: "0x80 \<le> cp \<Longrightarrow> LF \<notin> set (utf16 cp)"
  by (simp add: utf16_def LF_def)

lemma of_char_LF: "((of_char c :: nat) = LF) = (c = CHR 0x0A)"
proof -
  have "(of_char (CHR 0x0A) :: nat) = LF" by (simp add: LF_def)
  then show ?thesis by (metis of_char_eq_iff)
qed

lemma cont_byte_no_terminator: "in_range lo hi c \<Longrightarrow> 0x80 \<le> lo \<Longrightarrow> c \<noteq> CHR 0x0A"
  by (auto simp: in_range_def)

lemma utf8_decode_terminator:
  "(LF \<in> set (utf8_decode data)) = (CHR 0x0A \<in> set data)"
proof (induction data rule: length_induct)
  case (1 data)
  show ?case
  proof (cases data)
    case Nil
    then show ?thesis by simp
  next
    case (Cons b bs)
    have IH: "\<And>ys. length ys \<le> length bs \<Longrightarrow>
        (LF \<in> set (utf8_decode ys)) = (CHR 0x0A \<in> set ys)"
      using 1 Cons by simp
    have r: "LF \<noteq> 0xFFFD" "0xFFFD \<noteq> LF" by (simp_all add: LF_def)
    show ?thesis
    proof (cases "(of_char b :: nat) < 0x80")
      case True
      have "(LF = of_char b) = (b = CHR 0x0A)" using of_char_LF [of b] by auto
      with True IH [of bs] Cons show ?thesis by auto
    next
      case False
      then have b: "b \<noteq> CHR 0x0A" "CHR 0x0A \<noteq> b" by auto
      show ?thesis
      proof (cases "0xC2 \<le> (of_char b :: nat) \<and> (of_char b :: nat) \<le> 0xDF")
        case True
        have u: "\<And>c. LF \<notin> set (utf16 ((of_char b - 0xC0) * 0x40 + trail c))"
          using True by (intro utf16_no_terminator) arith
        have k: "\<And>c. in_range 0x80 0xBF c \<Longrightarrow> c \<noteq> CHR 0x0A \<and> CHR 0x0A \<noteq> c"
          using cont_byte_no_terminator by fastforce
        show ?thesis
          using False True Cons b r u k IH [of bs] IH [of "tl bs"]
          by (auto split: list.splits)
      next
        case n2: False
        show ?thesis
        proof (cases "0xE0 \<le> (of_char b :: nat) \<and> (of_char b :: nat) \<le> 0xEF")
          case True
          have u: "\<And>c d. in_range (if (of_char b :: nat) = 0xE0 then 0xA0 else 0x80)
                     (if (of_char b :: nat) = 0xED then 0x9F else 0xBF) c \<Longrightarrow>
                LF \<notin> set (utf16 ((of_char b - 0xE0) * 0x1000 + trail c * 0x40 + trail d))"
          proof -
            fix c d
            assume "in_range (if (of_char b :: nat) = 0xE0 then 0xA0 else 0x80)
                     (if (of_char b :: nat) = 0xED then 0x9F else 0xBF) c"
            then have "(of_char b :: nat) = 0xE0 \<longrightarrow> 0x20 \<le> trail c"
              by (auto simp: in_range_def trail_def)
            with True have "0x80 \<le> (of_char b - 0xE0) * 0x1000 + trail c * 0x40 + trail d"
              by (cases "(of_char b :: nat) = 0xE0") auto
            then show "LF \<notin> set (utf16 ((of_char b - 0xE0) * 0x1000 + trail c * 0x40 + trail d))"
              by (rule utf16_no_terminator)
          qed
          have k: "\<And>lo hi c. in_range lo hi c \<Longrightarrow> 0x80 \<le> lo \<Longrightarrow> c \<noteq> CHR 0x0A \<and> CHR 0x0A \<noteq> c"
            using cont_byte_no_terminator by fastforce
          have kd: "\<And>d. in_range 0x80 0xBF d \<Longrightarrow> d \<noteq> CHR 0x0A \<and> CHR 0x0A \<noteq> d"
            using cont_byte_no_terminator by fastforce
          show ?thesis
          proof (cases bs)
            case Nil
            with False n2 True Cons b r show ?thesis by simp
          next
            case bs: (Cons c cs)
            show ?thesis
            proof (cases "in_range (if (of_char b :: nat) = 0xE0 then 0xA0 else 0x80)
                     (if (of_char b :: nat) = 0xED then 0x9F else 0xBF) c")
              case ir: True
              then have c: "c \<noteq> CHR 0x0A \<and> CHR 0x0A \<noteq> c" by (rule k) simp
              show ?thesis
                using False n2 True Cons bs ir c b r u [OF ir] kd IH [of cs] IH [of "tl cs"]
                by (auto split: list.splits)
            next
              case ir: False
              show ?thesis
                using False n2 True Cons bs ir b r IH [of bs]
                by auto
            qed
          qed
        next
          case n3: False
          show ?thesis
          proof (cases "0xF0 \<le> (of_char b :: nat) \<and> (of_char b :: nat) \<le> 0xF4")
            case True
            have u: "\<And>c d e. in_range (if (of_char b :: nat) = 0xF0 then 0x90 else 0x80)
                     (if (of_char b :: nat) = 0xF4 then 0x8F else 0xBF) c \<Longrightarrow>
                LF \<notin> set (utf16 ((of_char b - 0xF0) * 0x40000 + trail c * 0x1000
                                   + trail d * 0x40 + trail e))"
            proof -
              fix c d e
              assume "in_range (if (of_char b :: nat) = 0xF0 then 0x90 else 0x80)
                     (if (of_char b :: nat) = 0xF4 then 0x8F else 0xBF) c"
              then have "(of_char b :: nat) = 0xF0 \<longrightarrow> 0x10 \<le> trail c"
                by (auto simp: in_range_def trail_def)
              with True have "0x80 \<le> (of_char b - 0xF0) * 0x40000 + trail c * 0x1000
                                   + trail d * 0x40 + trail e"
                by (cases "(of_char b :: nat) = 0xF0") auto
              then show "LF \<notin> set (utf16 ((of_char b - 0xF0) * 0x40000 + trail c * 0x1000
                                   + trail d * 0x40 + trail e))"
                by (rule utf16_no_terminator)
            qed
            have k: "\<And>lo hi c. in_range lo hi c \<Longrightarrow> 0x80 \<le> lo \<Longrightarrow> c \<noteq> CHR 0x0A \<and> CHR 0x0A \<noteq> c"
              using cont_byte_no_terminator by fastforce
            have kd: "\<And>d. in_range 0x80 0xBF d \<Longrightarrow> d \<noteq> CHR 0x0A \<and> CHR 0x0A \<noteq> d"
              using cont_byte_no_terminator by fastforce
            show ?thesis
            proof (cases bs)
              case Nil
              with False n2 n3 True Cons b r show ?thesis by simp
            next
              case bs: (Cons c cs)
              show ?thesis
              proof (cases "in_range (if (of_char b :: nat) = 0xF0 then 0x90 else 0x80)
                     (if (of_char b :: nat) = 0xF4 then 0x8F else 0xBF) c")
                case ir: True
                then have c: "c \<noteq> CHR 0x0A \<and> CHR 0x0A \<noteq> c" by (rule k) simp
                show ?thesis
                proof (cases cs)
                  case Nil
                  with False n2 n3 True Cons bs ir c b r show ?thesis by simp
                next
                  case cs: (Cons d ds)
                  show ?thesis
                  proof (cases "in_range 0x80 0xBF d")
                    case ird: True
                    then have d: "d \<noteq> CHR 0x0A \<and> CHR 0x0A \<noteq> d" by (rule k) simp
                    show ?thesis
                      using False n2 n3 True Cons bs cs ir ird c d b r u [OF ir] kd
                        IH [of ds] IH [of "tl ds"]
                      by (auto split: list.splits)
                  next
                    case ird: False
                    show ?thesis
                      using False n2 n3 True Cons bs cs ir ird c b r IH [of cs]
                      by auto
                  qed
                qed
              next
                case ir: False
                show ?thesis
                  using False n2 n3 True Cons bs ir b r IH [of bs]
                  by auto
              qed
            qed
          next
            case n4: False
            show ?thesis
              using False n2 n3 n4 Cons b r IH [of bs] by auto
          qed
        qed
      qed
    qed
  qed
qed

subsection \<open>Chunks that hold whole characters\<close>

text \<open>
  What the client emits depends on the chunks only through the text that the chunks decode
  to, one by one (\<open>data_events_as_one_text\<close>). For chunks of ASCII bytes that text is the
  text of the whole stream, so any way of cutting an ASCII stream into chunks gives the
  messages of the stream delivered as one chunk.
\<close>

lemma fragmentation_invariance_ascii:
  assumes "list_all ascii chunks"
  shows "emitted (LDJClient on_message chunks) = emitted (LDJClient on_message [concat chunks])
       \<and> thrown (LDJClient on_message chunks) = thrown (LDJClient on_message [concat chunks])"
proof -
  have one: "concat (map utf8_decode [concat chunks]) = concat (map utf8_decode chunks)"
    using assms by (simp add: utf8_decode_concat_ascii)
  have a: "LF \<notin> set []" by simp
  from data_events_as_one_text [OF a, of on_message chunks]
       data_events_as_one_text [OF a, of on_message "[concat chunks]"]
  show ?thesis
    unfolding LDJClient_def one by simp
qed

text \<open>
  A chunk with no terminator byte is kept, decoded, behind what \<open>buffer\<close> held; the chunk
  that brings the terminator then gives one run of \<open>JSON.parse\<close>, on the two decoded texts
  put together.
\<close>

lemma partial_frame_is_retained:
  assumes "LF \<notin> set buf" and "CHR 0x0A \<notin> set data"
  shows "on_data on_message buf data =
           \<lparr>emitted = [], buffer = buf @ utf8_decode data, thrown = None\<rparr>"
  using assms by (simp add: on_data_def drain_no_terminator utf8_decode_terminator)

lemma partial_frame_then_remainder:
  assumes "LF \<notin> set buf" and "CHR 0x0A \<notin> set part1"
    and "utf8_decode part2 = q @ [LF]" and "LF \<notin> set q"
  shows "on_data on_message (buffer (on_data on_message buf part1)) part2 =
           (case JSON_parse (buf @ utf8_decode part1 @ q) of
              None \<Rightarrow> \<lparr>emitted = [], buffer = [], thrown = Some SyntaxError\<rparr>
            | Some v \<Rightarrow> \<lparr>emitted = [v], buffer = [], thrown = on_message v\<rparr>)"
proof -
  have e: "drain on_message [] = \<lparr>emitted = [], buffer = [], thrown = None\<rparr>"
    by (simp add: drain_no_terminator)
  have b: "buffer (drain on_message (buf @ utf8_decode part1)) = buf @ utf8_decode part1"
    using assms(1,2) by (simp add: drain_no_terminator utf8_decode_terminator)
  have n: "LF \<notin> set (buf @ utf8_decode part1 @ q)"
    using assms(1,2,4) by (simp add: utf8_decode_terminator)
  have "drain on_message ((buf @ utf8_decode part1 @ q) @ LF # []) =
          (case JSON_parse (buf @ utf8_decode part1 @ q) of
              None \<Rightarrow> \<lparr>emitted = [], buffer = [], thrown = Some SyntaxError\<rparr>
            | Some v \<Rightarrow> \<lparr>emitted = [v], buffer = [], thrown = on_message v\<rparr>)"
    unfolding drain_frame [OF n] by (simp add: e split: option.splits)
  then show ?thesis
    unfolding on_data_def b assms(3) by simp
qed

subsection \<open>The two services against the client\<close>

lemmas utf8_eval = in_range_def trail_def utf16_def

lemmas drain_eval = drain.simps JSON_parse_def js_literal_def ch_def punct_def is_ws_def
  is_digit_def cons_tok_def lex_number_def lex_frac_def lex_exp_def lex_sign_def mk_number_def
  digits_val_def substring_def substring_from_def clamp_index_def LF_def Let_def
  message_listener_def message_handler_def hex4_def hex_val_def unescape_def

text \<open>
  The two chunks of the specification's scenario, whose second chunk carries the timestamp
  as a number and closes the object, give exactly one message.
\<close>

lemma spec_scenario_one_message:
  \<open>LDJClient message_listener
      [''{"type":"changed","file":"targ'',
       ''et.txt","timestamp":1358175758495}\<newline>''] =
     \<lparr>emitted = [JObj [(js_literal ''type'', JStr (js_literal ''changed'')),
                       (js_literal ''file'', JStr (js_literal ''target.txt'')),
                       (js_literal ''timestamp'', JNum 1358175758495 0)]],
      buffer = [], thrown = None\<rparr>\<close>
  by code_simp

text \<open>The chunks of the replacement service, lines 35 and 36, give one message as well.\<close>

lemma replacement_service_one_message:
  \<open>LDJClient message_listener [firstChunk, secondChunk] =
     \<lparr>emitted = [JObj [(js_literal ''type'', JStr (js_literal ''changed'')),
                       (js_literal ''timestamp'', JNum 1450694370094 0)]],
      buffer = [], thrown = None\<rparr>\<close>
  by code_simp

subsection \<open>The sessions of the two services\<close>

lemma watch_closed_stays:
  "\<not> watcher_open s \<Longrightarrow> \<not> watcher_open (foldl (watch_step filename) s evs)"
proof (induction evs arbitrary: s)
  case Nil
  then show ?case by simp
next
  case (Cons ev evs)
  then show ?case by (cases ev) (simp_all add: watch_on_close_def)
qed

lemma timer_not_pending_stays:
  "timer s \<noteq> Pending \<Longrightarrow> timer (foldl test_step s evs) \<noteq> Pending"
proof (induction evs arbitrary: s)
  case Nil
  then show ?case by simp
next
  case (Cons ev evs)
  then show ?case
    by (cases ev) (simp_all add: test_on_end_def clearTimeout_def)
qed

lemma ended_timer_fired:
  "(ended s \<longrightarrow> timer s \<noteq> Pending) \<Longrightarrow>
   ended (foldl test_step s evs) \<longrightarrow> timer (foldl test_step s evs) \<noteq> Pending"
proof (induction evs arbitrary: s)
  case Nil
  then show ?case by simp
next
  case (Cons ev evs)
  show ?case
  proof (cases ev)
    case Timeout
    with Cons.prems have "ended (test_step s ev) \<longrightarrow> timer (test_step s ev) \<noteq> Pending"
      by (simp add: timeout_callback_def)
    from Cons.IH [OF this] show ?thesis by simp
  next
    case End
    with Cons.prems have "ended (test_step s ev) \<longrightarrow> timer (test_step s ev) \<noteq> Pending"
      by (simp add: test_on_end_def clearTimeout_def)
    from Cons.IH [OF this] show ?thesis by simp
  qed
qed

section \<open>The claims\<close>

text \<open>
  C1 (fragmentation invariance), at an input where the program departs from it. The
  stream is the one frame \<open>{"type":"watching","file":"\<dots>"}\<close> whose file name is the
  character U+00E9, two bytes \<open>C3 A9\<close> in UTF-8, as the watcher service writes it for a file
  of that name. Delivered as one chunk, the message carries the file name U+00E9. Delivered
  as two chunks that part between the two bytes, or one byte at a time, each chunk is
  decoded on its own by \<open>buffer += data\<close>, each half of the character becomes U+FFFD, and
  the message carries the file name U+FFFD U+FFFD.
\<close>

theorem split_character_changes_message:
  \<open>emitted (LDJClient message_listener
      [''{"type":"watching","file":"'' @ [CHR 0xC3, CHR 0xA9] @ ''"}\<newline>'']) =
     [JObj [(js_literal ''type'', JStr (js_literal ''watching'')),
            (js_literal ''file'', JStr [0xE9])]]
   \<and> emitted (LDJClient message_listener
      [''{"type":"watching","file":"'' @ [CHR 0xC3], [CHR 0xA9] @ ''"}\<newline>'']) =
     [JObj [(js_literal ''type'', JStr (js_literal ''watching'')),
            (js_literal ''file'', JStr [0xFFFD, 0xFFFD])]]
   \<and> emitted (LDJClient message_listener
      (map (\<lambda>b. [b])
         (''{"type":"watching","file":"'' @ [CHR 0xC3, CHR 0xA9] @ ''"}\<newline>''))) =
     [JObj [(js_literal ''type'', JStr (js_literal ''watching'')),
            (js_literal ''file'', JStr [0xFFFD, 0xFFFD])]]\<close>
  by (simp add: LDJClient_def on_data_def utf8_eval drain_eval)

text \<open>
  C2 (a frame that fails to decode), as the program has it. When the text in \<open>buffer\<close>, after
  the chunk is appended, is a run of whole frames that decode and are delivered, followed
  by a terminated payload that \<open>JSON.parse\<close> rejects, the \<open>data\<close> handler emits the messages of
  the frames before it and then ends with the \<open>SyntaxError\<close>: the payload is gone from
  \<open>buffer\<close>, and all that follows it stays in \<open>buffer\<close>, not decoded. No event reports the
  failure.
\<close>

theorem malformed_frame_throws:
  assumes "buf @ utf8_decode data = good @ p @ LF # rest"
    and "drain on_message good = \<lparr>emitted = ms, buffer = [], thrown = None\<rparr>"
    and "LF \<notin> set p"
    and "JSON_parse p = None"
  shows "on_data on_message buf data =
           \<lparr>emitted = ms, buffer = rest, thrown = Some SyntaxError\<rparr>"
  using assms drain_append [of on_message good "p @ LF # rest"]
  by (simp add: on_data_def drain_frame)

text \<open>
  A frame \<open>{"type":"watching","file":"a"}\<close>, the payload \<open>{"type":"changed"\<close> with no closing
  brace, and a frame \<open>{"type":"watching","file":"b"}\<close>, in one chunk: the first message is
  emitted, the third frame is left in \<open>buffer\<close>.
\<close>

theorem malformed_frame_throws_witness:
  \<open>on_data message_listener []
      ''{"type":"watching","file":"a"}\<newline>{"type":"changed"\<newline>{"type":"watching","file":"b"}\<newline>'' =
     \<lparr>emitted = [JObj [(js_literal ''type'', JStr (js_literal ''watching'')),
                       (js_literal ''file'', JStr (js_literal ''a''))]],
      buffer = js_literal ''{"type":"watching","file":"b"}\<newline>'',
      thrown = Some SyntaxError\<rparr>\<close>
proof (rule malformed_frame_throws
    [where good = \<open>js_literal ''{"type":"watching","file":"a"}\<newline>''\<close>
       and p = \<open>js_literal ''{"type":"changed"''\<close>])
  show \<open>[] @ utf8_decode
      ''{"type":"watching","file":"a"}\<newline>{"type":"changed"\<newline>{"type":"watching","file":"b"}\<newline>'' =
    js_literal ''{"type":"watching","file":"a"}\<newline>'' @ js_literal ''{"type":"changed"'' @ LF #
    js_literal ''{"type":"watching","file":"b"}\<newline>''\<close>
    by code_simp
  show \<open>drain message_listener (js_literal ''{"type":"watching","file":"a"}\<newline>'') =
     \<lparr>emitted = [JObj [(js_literal ''type'', JStr (js_literal ''watching'')),
                       (js_literal ''file'', JStr (js_literal ''a''))]],
      buffer = [], thrown = None\<rparr>\<close>
    by code_simp
  show \<open>LF \<notin> set (js_literal ''{"type":"changed"'')\<close> by code_simp
  show \<open>JSON_parse (js_literal ''{"type":"changed"'') = None\<close> by code_simp
qed

text \<open>
  The specification's malformed payload followed by a well-formed frame: no message is
  emitted, the well-formed frame stays in \<open>buffer\<close>, and the handler ends with the
  \<open>SyntaxError\<close>.
\<close>

theorem malformed_frame_counterexample:
  \<open>on_data message_listener []
      ''{"type":"changed"\<newline>{"type":"watching","file":"a"}\<newline>'' =
     \<lparr>emitted = [],
      buffer = js_literal ''{"type":"watching","file":"a"}\<newline>'',
      thrown = Some SyntaxError\<rparr>\<close>
  by code_simp

text \<open>
  C3 (the two-chunk scenario), at the chunks the test service of lines 6 to 23 sends. Its
  second write puts the quotation marks around \<open>1358175758495}\<close>, so the two chunks together
  are \<open>{"type":"changed","file":"target.txt","timestamp":"1358175758495}"\<close> and a line
  terminator: an object that is never closed. The client emits no message and ends with
  the \<open>SyntaxError\<close> of \<open>JSON.parse\<close>. (On the chunks as the specification writes them the
  client emits the one message: \<open>spec_scenario_one_message\<close>.)
\<close>

theorem test_service_frame_is_malformed:
  \<open>sent (test_run [Timeout]) =
     [''{"type":"changed","file":"targ'',
      ''et.txt","timestamp":"1358175758495}"\<newline>'']
   \<and> LDJClient message_listener (sent (test_run [Timeout])) =
       \<lparr>emitted = [], buffer = [], thrown = Some SyntaxError\<rparr>\<close>
  by code_simp




text \<open>
  C5 (Decode Buffer invariant). Whenever a run of the \<open>data\<close> handler returns (no exception
  leaves it), the variable \<open>buffer\<close> holds no line terminator: what is left is at most one
  frame that is not terminated yet, whatever \<open>buffer\<close> held before the call and whatever
  the chunk was. \<open>buffer\<close> starts empty, so this holds at every point between two calls.
\<close>

theorem buffer_holds_no_terminator:
  "thrown (on_data on_message buf data) = None \<Longrightarrow>
   LF \<notin> set (buffer (on_data on_message buf data))"
  unfolding on_data_def by (rule drain_buffer_no_terminator)

theorem buffer_holds_no_terminator_witness:
  \<open>thrown (on_data message_listener [] ''{"type":"watching","file":"a"}\<newline>{"ty'') = None
   \<and> LF \<notin> set (buffer (on_data message_listener []
                ''{"type":"watching","file":"a"}\<newline>{"ty''))\<close>
proof -
  have h: \<open>thrown (on_data message_listener []
              ''{"type":"watching","file":"a"}\<newline>{"ty'') = None\<close>
    by code_simp
  from buffer_holds_no_terminator [OF h] h show ?thesis by simp
qed




text \<open>
  C7 (partial-frame retention), at an input where the program departs from it. The first
  chunk is the start of a \<open>watching\<close> frame up to the first byte \<open>C3\<close> of the file name U+00E9
  and has no terminator byte: no message is emitted, but \<open>buffer\<close> holds U+FFFD in place of
  the byte. The second chunk, from the byte \<open>A9\<close> to the terminator, gives one message, with
  the file name U+FFFD U+FFFD; decoding the two parts put together gives the file name
  U+00E9.
\<close>

theorem split_character_partial_frame:
  \<open>on_data message_listener [] (''{"type":"watching","file":"'' @ [CHR 0xC3]) =
     \<lparr>emitted = [],
      buffer = js_literal ''{"type":"watching","file":"'' @ [0xFFFD],
      thrown = None\<rparr>
   \<and> emitted (on_data message_listener
        (js_literal ''{"type":"watching","file":"'' @ [0xFFFD]) ([CHR 0xA9] @ ''"}\<newline>'')) =
     [JObj [(js_literal ''type'', JStr (js_literal ''watching'')),
            (js_literal ''file'', JStr [0xFFFD, 0xFFFD])]]
   \<and> JSON_parse (utf8_decode
        ((''{"type":"watching","file":"'' @ [CHR 0xC3]) @ ([CHR 0xA9] @ ''"}''))) =
     Some (JObj [(js_literal ''type'', JStr (js_literal ''watching'')),
                 (js_literal ''file'', JStr [0xE9])])\<close>
  by (simp add: on_data_def utf8_eval drain_eval)

text \<open>
  C8 (a frame that lacks fields), as the program has it. For every terminated payload that
  the loop reaches, that is, when the frames before it in \<open>buffer\<close> decode and are delivered
  without an exception, the outcome depends on the payload only through \<open>JSON.parse\<close>: a
  payload that is not JSON ends the handler with the \<open>SyntaxError\<close>, and a payload that is
  JSON is emitted as the next message, as parsed, whatever fields it has or lacks; the
  loop then goes on with the rest of \<open>buffer\<close> when the listener returns. Nothing looks at
  the fields before the message is emitted.
\<close>

theorem valid_json_frame_is_emitted:
  assumes "buf @ utf8_decode data = good @ p @ LF # rest"
    and "drain on_message good = \<lparr>emitted = ms, buffer = [], thrown = None\<rparr>"
    and "LF \<notin> set p"
  shows "on_data on_message buf data =
           (case JSON_parse p of
              None \<Rightarrow> \<lparr>emitted = ms, buffer = rest, thrown = Some SyntaxError\<rparr>
            | Some v \<Rightarrow>
                (case on_message v of
                   Some e \<Rightarrow> \<lparr>emitted = ms @ [v], buffer = rest, thrown = Some e\<rparr>
                 | None \<Rightarrow>
                     (drain on_message rest)
                       \<lparr>emitted := ms @ v # emitted (drain on_message rest)\<rparr>))"
  using assms(1,3) drain_after_delivered [OF assms(2), of "p @ LF # rest"]
  by (simp add: on_data_def drain_frame split: option.splits)

text \<open>
  The pending start of a \<open>watching\<close> frame; the chunk brings its end, a \<open>changed\<close> message
  with a file and no timestamp, and the start of a third frame.
\<close>

theorem valid_json_frame_is_emitted_witness:
  \<open>on_data no_listener (js_literal ''{"type":"watching",'')
      ''"file":"a"}\<newline>{"type":"changed","file":"target.txt"}\<newline>{"ty'' =
     \<lparr>emitted = [JObj [(js_literal ''type'', JStr (js_literal ''watching'')),
                       (js_literal ''file'', JStr (js_literal ''a''))],
                 JObj [(js_literal ''type'', JStr (js_literal ''changed'')),
                       (js_literal ''file'', JStr (js_literal ''target.txt''))]],
      buffer = js_literal ''{"ty'', thrown = None\<rparr>\<close>
proof -
  have 1: \<open>js_literal ''{"type":"watching",'' @ utf8_decode
       ''"file":"a"}\<newline>{"type":"changed","file":"target.txt"}\<newline>{"ty'' =
     js_literal ''{"type":"watching","file":"a"}\<newline>'' @
     js_literal ''{"type":"changed","file":"target.txt"}'' @ LF # js_literal ''{"ty''\<close>
    by code_simp
  have 2: \<open>drain no_listener (js_literal ''{"type":"watching","file":"a"}\<newline>'') =
     \<lparr>emitted = [JObj [(js_literal ''type'', JStr (js_literal ''watching'')),
                       (js_literal ''file'', JStr (js_literal ''a''))]],
      buffer = [], thrown = None\<rparr>\<close>
    by code_simp
  have 3: \<open>LF \<notin> set (js_literal ''{"type":"changed","file":"target.txt"}'')\<close>
    by code_simp
  have 4: \<open>JSON_parse (js_literal ''{"type":"changed","file":"target.txt"}'') =
     Some (JObj [(js_literal ''type'', JStr (js_literal ''changed'')),
                 (js_literal ''file'', JStr (js_literal ''target.txt''))])\<close> by code_simp
  have 5: \<open>drain no_listener (js_literal ''{"ty'') =
     \<lparr>emitted = [], buffer = js_literal ''{"ty'', thrown = None\<rparr>\<close>
    by code_simp
  from valid_json_frame_is_emitted [OF 1 2 3] 4 5 show ?thesis
    by (simp add: no_listener_def)
qed

text \<open>
  A \<open>changed\<close> message with no timestamp and no file: it is emitted, nothing is thrown, and
  the client's handler prints its line for the timestamp \<open>undefined\<close>.
\<close>

theorem missing_field_counterexample:
  \<open>on_data message_listener [] ''{"type":"changed"}\<newline>'' =
     \<lparr>emitted = [JObj [(js_literal ''type'', JStr (js_literal ''changed''))]],
      buffer = [], thrown = None\<rparr>
   \<and> message_handler (JObj [(js_literal ''type'', JStr (js_literal ''changed''))])
       = Inr (File_changed Undefined)\<close>
  by code_simp

text \<open>
  C9 (release on disconnect). In the watcher service, once the connection's \<open>close\<close> event
  has been delivered the watcher is closed, and it stays closed whatever is delivered
  before and after. In the test service, once the connection's \<open>end\<close> event has been
  delivered the timer is not pending, whatever is delivered before and after; and whenever
  the service has ended the connection itself, which only the timer's callback does, the
  timer is not pending either.
\<close>

theorem resources_released_on_disconnect:
  "\<not> watcher_open (watch_run filename (evs @ Close # evs'))
   \<and> timer (test_run (tevs @ End # tevs')) \<noteq> Pending
   \<and> (ended (test_run tevs) \<longrightarrow> timer (test_run tevs) \<noteq> Pending)"
proof (intro conjI)
  show "\<not> watcher_open (watch_run filename (evs @ Close # evs'))"
    unfolding watch_run_def by (simp add: watch_closed_stays watch_on_close_def)
  show "timer (test_run (tevs @ End # tevs')) \<noteq> Pending"
    unfolding test_run_def
    by (simp add: timer_not_pending_stays test_on_end_def clearTimeout_def)
  show "ended (test_run tevs) \<longrightarrow> timer (test_run tevs) \<noteq> Pending"
    unfolding test_run_def
    using ended_timer_fired [of test_connection tevs] by (simp add: test_connection_def)
qed

text \<open>
  A change, the \<open>close\<close> event and a later change in the watcher service; the \<open>end\<close> event
  before the timeout in the test service; and the test service after its timeout.
\<close>

theorem resources_released_on_disconnect_witness:
  "\<not> watcher_open (watch_run (js_literal ''target.txt'') ([Change 5] @ Close # [Change 6]))
   \<and> timer (test_run ([] @ End # [Timeout])) \<noteq> Pending
   \<and> ended (test_run [Timeout])
   \<and> timer (test_run [Timeout]) \<noteq> Pending"
proof -
  have e: "ended (test_run [Timeout])"
    by (simp add: test_run_def test_connection_def timeout_callback_def)
  from resources_released_on_disconnect
         [of "js_literal ''target.txt''" "[Change 5]" "[Change 6]" "[]" "[Timeout]"]
       resources_released_on_disconnect
         [of "js_literal ''target.txt''" "[Change 5]" "[Change 6]" "[Timeout]" "[]"] e
  show ?thesis by blast
qed

text \<open>
  C10 (no validation of the payload), as the program has it. For every terminated payload
  that \<open>JSON.parse\<close> accepts and that the loop reaches, that is, when the frames before it in
  \<open>buffer\<close> decode and are delivered without an exception, the parsed value itself is the
  next message emitted, whatever kind of value it is; the loop goes on to the rest of
  \<open>buffer\<close> when the listener returns. A payload behind a frame that ended the handler is
  not reached in that run.
\<close>

theorem parsed_value_emitted_unchanged:
  assumes "buf @ utf8_decode data = good @ p @ LF # rest"
    and "drain on_message good = \<lparr>emitted = ms, buffer = [], thrown = None\<rparr>"
    and "LF \<notin> set p"
    and "JSON_parse p = Some v"
  shows "emitted (on_data on_message buf data) =
           ms @ v # (case on_message v of
                       None \<Rightarrow> emitted (drain on_message rest)
                     | Some e \<Rightarrow> [])"
  using assms(1,3,4) drain_after_delivered [OF assms(2), of "p @ LF # rest"]
  by (simp add: on_data_def drain_frame split: option.splits)

text \<open>
  The payloads \<open>null\<close>, \<open>42\<close> and \<open>"x"\<close> in one chunk, with no listener that throws: at the
  payload \<open>42\<close>, behind the delivered \<open>null\<close>.
\<close>

theorem parsed_value_emitted_unchanged_witness:
  \<open>emitted (on_data no_listener [] ''null\<newline>42\<newline>"x"\<newline>'') =
     [JNull, JNum 42 0, JStr (js_literal ''x'')]\<close>
proof -
  have 1: \<open>[] @ utf8_decode ''null\<newline>42\<newline>"x"\<newline>'' =
       js_literal ''null\<newline>'' @ js_literal ''42'' @ LF # js_literal ''"x"\<newline>''\<close>
    by code_simp
  have 2: \<open>drain no_listener (js_literal ''null\<newline>'') =
       \<lparr>emitted = [JNull], buffer = [], thrown = None\<rparr>\<close>
    by code_simp
  have 3: \<open>LF \<notin> set (js_literal ''42'')\<close> by code_simp
  have 4: \<open>JSON_parse (js_literal ''42'') = Some (JNum 42 0)\<close> by code_simp
  have 5: \<open>(case no_listener (JNum 42 0) of
                  None \<Rightarrow> emitted (drain no_listener (js_literal ''"x"\<newline>''))
                | Some e \<Rightarrow> []) = [JStr (js_literal ''x'')]\<close>
    by code_simp
  from parsed_value_emitted_unchanged [OF 1 2 3 4] 5 show ?thesis by simp
qed

text \<open>
  The payload \<open>42\<close> behind a payload that is not JSON, with no listener: nothing is emitted
  and \<open>42\<close> stays in \<open>buffer\<close>. The payloads \<open>42\<close> and \<open>"x"\<close> behind \<open>null\<close>, under the client's
  own handler, which throws a \<open>TypeError\<close> on \<open>null\<close>: only \<open>null\<close> is emitted.
\<close>

theorem unreached_payload_counterexample:
  \<open>on_data no_listener [] ''x\<newline>42\<newline>'' =
     \<lparr>emitted = [], buffer = js_literal ''42\<newline>'', thrown = Some SyntaxError\<rparr>
   \<and> on_data message_listener [] ''null\<newline>42\<newline>"x"\<newline>'' =
     \<lparr>emitted = [JNull], buffer = js_literal ''42\<newline>"x"\<newline>'',
      thrown = Some TypeError\<rparr>\<close>
  by code_simp

end
